theory Spec2Isabelle
  imports Main "HOL-Library.Sublist"
begin

section \<open>Python strings\<close>

text \<open>
  A Python \<open>str\<close> is modelled as a \<open>string\<close>, one \<open>char\<close> per character, so the
  model covers the strings whose code points lie below 256. The string methods used by
  \<open>convert.py\<close> are written out below after their CPython behaviour:
  \<open>s.startswith(p)\<close> is \<open>prefix p s\<close> and \<open>d in s\<close> is \<open>sublist d s\<close>.
\<close>

abbreviation nl :: char where
  "nl \<equiv> CHR 0x0A"

definition startswith :: "string \<Rightarrow> string \<Rightarrow> bool" where
  "startswith s p = prefix p s"

text \<open>\<open>s.lstrip(cs)\<close>, \<open>s.rstrip(cs)\<close> and \<open>s.strip(cs)\<close> with an explicit character set.\<close>

definition lstrip_chars :: "string \<Rightarrow> string \<Rightarrow> string" where
  "lstrip_chars cs s = dropWhile (\<lambda>c. c \<in> set cs) s"

definition rstrip_chars :: "string \<Rightarrow> string \<Rightarrow> string" where
  "rstrip_chars cs s = rev (dropWhile (\<lambda>c. c \<in> set cs) (rev s))"

definition strip_chars :: "string \<Rightarrow> string \<Rightarrow> string" where
  "strip_chars cs s = rstrip_chars cs (lstrip_chars cs s)"

text \<open>
  The characters \<open>str.strip()\<close> removes when called without an argument: the white space
  of CPython below code point 256 (tab to carriage return, the four separators
  \<open>0x1C\<close> to \<open>0x1F\<close>, space, \<open>0x85\<close> and \<open>0xA0\<close>).
\<close>

definition whitespace :: string where
  "whitespace = [CHR 0x09, CHR 0x0A, CHR 0x0B, CHR 0x0C, CHR 0x0D,
                 CHR 0x1C, CHR 0x1D, CHR 0x1E, CHR 0x1F, CHR 0x20, CHR 0x85, CHR 0xA0]"

definition strip :: "string \<Rightarrow> string" where
  "strip s = strip_chars whitespace s"

text \<open>
  \<open>s.replace(old, new)\<close>: the occurrences of \<open>old\<close> are found from the left and do not
  overlap. For the empty pattern Python puts \<open>new\<close> before every character and at the end.
\<close>

function replace :: "string \<Rightarrow> string \<Rightarrow> string \<Rightarrow> string" where
  "replace s old new =
     (if old = [] then new @ concat (map (\<lambda>c. c # new) s)
      else if s = [] then []
      else if prefix old s then new @ replace (drop (length old) s) old new
      else hd s # replace (tl s) old new)"
  by pat_completeness auto
termination
  by (relation "measure (\<lambda>(s, old, new). length s)") auto

declare replace.simps [simp del]

text \<open>\<open>x or ''\<close> for a value that is \<open>None\<close> or a string.\<close>

definition or_empty :: "string option \<Rightarrow> string" where
  "or_empty x = (case x of None \<Rightarrow> [] | Some t \<Rightarrow> t)"

section \<open>\<open>os.path\<close> on a POSIX system\<close>

text \<open>
  \<open>rfind1 c p\<close> is \<open>p.rfind(c) + 1\<close>: the index just after the last \<open>c\<close>, and 0 when
  there is none.
\<close>

definition rfind1 :: "char \<Rightarrow> string \<Rightarrow> nat" where
  "rfind1 c p = length (dropWhile (\<lambda>x. x \<noteq> c) (rev p))"

text \<open>
  \<open>posixpath.dirname\<close>: the part up to the last slash, with its trailing slashes removed
  unless it consists of slashes only.
\<close>

definition dirname :: "string \<Rightarrow> string" where
  "dirname p =
     (let i = rfind1 (CHR ''/'') p; head = take i p
      in if head \<noteq> [] \<and> head \<noteq> replicate (length head) (CHR ''/'')
         then rstrip_chars ''/'' head else head)"

definition basename :: "string \<Rightarrow> string" where
  "basename p = drop (rfind1 (CHR ''/'') p) p"

text \<open>
  \<open>posixpath.splitext\<close>: the extension starts at the last dot, provided that dot comes
  after the last slash and some character of the file name before it is not a dot.
\<close>

definition splitext :: "string \<Rightarrow> string \<times> string" where
  "splitext p =
     (let sep1 = rfind1 (CHR ''/'') p; dot1 = rfind1 (CHR ''.'') p
      in if sep1 < dot1 \<and> list_ex (\<lambda>c. c \<noteq> CHR ''.'') (take (dot1 - 1 - sep1) (drop sep1 p))
         then (take (dot1 - 1) p, drop (dot1 - 1) p)
         else (p, []))"

section \<open>\<open>convert.py\<close>\<close>

definition YAML_BOUNDARY :: string where
  "YAML_BOUNDARY = ''---''"

datatype error = InvalidArgumentException | LibraryError

datatype Link = UNKNOWN | HEADING | ATTACHMENT | MD_PAGE_REFERENCE

subsection \<open>\<open>parse\<close>\<close>

text \<open>
  The loop of \<open>parse\<close> over \<open>post.readlines()\<close>; the state is
  \<open>(raw_yaml, markdown, in_yaml)\<close>. A boundary line met while \<open>in_yaml\<close> holds and
  \<open>raw_yaml\<close> is non-empty is skipped and ends the metadata; every other line, boundary
  lines included, is appended to \<open>raw_yaml\<close> or to \<open>markdown\<close>.
\<close>

fun parse_loop :: "string list \<Rightarrow> string \<times> string \<times> bool \<Rightarrow> string \<times> string \<times> bool" where
  "parse_loop [] st = st"
| "parse_loop (line # rest) (raw_yaml, markdown, in_yaml) =
     (if strip line = YAML_BOUNDARY \<and> in_yaml \<and> raw_yaml \<noteq> []
      then parse_loop rest (raw_yaml, markdown, False)
      else if in_yaml then parse_loop rest (raw_yaml @ line, markdown, in_yaml)
      else parse_loop rest (raw_yaml, markdown @ line, in_yaml))"

text \<open>
  \<open>parse\<close> on the lines of the post. \<open>yaml.load\<close> is a parameter; \<open>Inl\<close> is the
  exception it raises.
\<close>

definition parse :: "(string \<Rightarrow> error + 'fm) \<Rightarrow> string list \<Rightarrow> error + ('fm \<times> string)" where
  "parse yaml_load lines =
     (case parse_loop lines ([], [], True) of
        (raw_yaml, markdown, in_yaml) \<Rightarrow>
          (case yaml_load raw_yaml of
             Inl e \<Rightarrow> Inl e
           | Inr front_matter \<Rightarrow> Inr (front_matter, strip markdown)))"

subsection \<open>\<open>convert_info_macros\<close>\<close>

definition info_tag :: string where
  \<open>info_tag = ''<p><ac:structured-macro ac:name="info"><ac:rich-text-body><p>''\<close>

definition tip_tag :: string where
  "tip_tag = replace info_tag ''info'' ''tip''"

definition note_tag :: string where
  "note_tag = replace info_tag ''info'' ''note''"

definition warning_tag :: string where
  "warning_tag = replace info_tag ''info'' ''warning''"

definition close_tag :: string where
  "close_tag = ''</p></ac:rich-text-body></ac:structured-macro></p>''"

definition convert_info_macros :: "string \<Rightarrow> string" where
  "convert_info_macros html0 =
     (let html = replace (replace html0 ''<p>~:</p>'' info_tag) ''<p>:~</p>'' close_tag;
          html = replace (replace html ''<p>~%</p>'' tip_tag) ''<p>%~</p>'' close_tag;
          html = replace (replace html ''<p>~?</p>'' note_tag) ''<p>?~</p>'' close_tag;
          html = replace (replace html ''<p>~!</p>'' warning_tag) ''<p>!~</p>'' close_tag;
          html = replace (replace html ''<p>~:'' info_tag) '':~</p>'' close_tag;
          html = replace (replace html ''<p>~%'' tip_tag) ''%~</p>'' close_tag;
          html = replace (replace html ''<p>~?'' note_tag) ''?~</p>'' close_tag;
          html = replace (replace html ''<p>~!'' warning_tag) ''!~</p>'' close_tag;
          html = replace (replace html ''~:'' info_tag) '':~'' close_tag;
          html = replace (replace html ''~%'' tip_tag) ''%~'' close_tag;
          html = replace (replace html ''~?'' note_tag) ''?~'' close_tag;
          html = replace (replace html ''~!'' warning_tag) ''!~'' close_tag
      in html)"

text \<open>The eight raw alert delimiters.\<close>

definition delimiters :: "string list" where
  "delimiters = [''~:'', '':~'', ''~%'', ''%~'', ''~?'', ''?~'', ''~!'', ''!~'']"

definition has_delimiter :: "string \<Rightarrow> bool" where
  "has_delimiter s = list_ex (\<lambda>d. sublist d s) delimiters"

subsection \<open>\<open>ConfluenceRenderer\<close>\<close>

text \<open>
  The renderer object: its fields, with the page layout of an arbitrary type \<open>'l\<close>.
  \<open>get_page_title\<close> is \<open>None\<close> or the callback.
\<close>

record 'l renderer =
  has_toc :: bool
  attachments :: "string list"
  page_layout :: 'l
  get_page_title :: "(string \<Rightarrow> string) option"

text \<open>
  The library calls of the hooks are parameters: \<open>urlparse(src).netloc\<close> (\<open>None\<close> when
  \<open>urlparse\<close> raises), \<open>mistune.escape(text, quote=True)\<close> and the \<open>link\<close> hook of
  \<open>mistune.Renderer\<close>, which returns a string and touches no field of the renderer.
\<close>

record library =
  urlparse_netloc :: "string \<Rightarrow> string option"
  escape :: "string \<Rightarrow> string"
  super_link :: "string \<Rightarrow> string option \<Rightarrow> string \<Rightarrow> string"

text \<open>
  The arguments of the constructor as it inspects them. \<open>page_layout\<close> is \<open>None\<close>, an
  object that is no \<open>AbstractConfluencePage\<close>, or a page object; the flag is the truth
  value of the object (\<open>bool(page_layout)\<close>). \<open>get_title_func\<close> is callable or not.
\<close>

datatype 'l layout_arg = NoneArg | OtherObject bool | PageObject bool 'l

datatype title_arg = Callable "string \<Rightarrow> string" | NotCallable

fun truthy :: "'l layout_arg \<Rightarrow> bool" where
  "truthy NoneArg = False"
| "truthy (OtherObject b) = b"
| "truthy (PageObject b l) = b"

fun as_page :: "'l layout_arg \<Rightarrow> 'l option" where
  "as_page (PageObject b l) = Some l"
| "as_page _ = None"

definition init :: "'l layout_arg \<Rightarrow> title_arg \<Rightarrow> error + 'l renderer" where
  "init page_layout_arg get_title_func =
     (case as_page page_layout_arg of
        None \<Rightarrow> Inl InvalidArgumentException
      | Some l \<Rightarrow>
          if \<not> truthy page_layout_arg then Inl InvalidArgumentException
          else Inr \<lparr> has_toc = False, attachments = [], page_layout = l,
                     get_page_title = (case get_title_func of
                                         Callable f \<Rightarrow> Some f
                                       | NotCallable \<Rightarrow> None) \<rparr>)"

definition resolve_link :: "string \<Rightarrow> Link" where
  "resolve_link link =
     (if startswith link ''#'' then HEADING
      else if dirname link = ''images'' then ATTACHMENT
      else if snd (splitext link) = ''.md'' then MD_PAGE_REFERENCE
      else UNKNOWN)"

definition image ::
  "library \<Rightarrow> 'l renderer \<Rightarrow> string \<Rightarrow> string option \<Rightarrow> string \<Rightarrow> error + (string \<times> 'l renderer)" where
  \<open>image lib self src title alt_text =
     (case urlparse_netloc lib src of
        None \<Rightarrow> Inl LibraryError
      | Some netloc \<Rightarrow>
          let is_external = (netloc \<noteq> []);
              caption = strip_chars ''*_'' alt_text;
              render = (\<lambda>image_tag. ''<ac:image ac:align="center">'' @ image_tag @
                          '' <div style="text-align: center;"><em>'' @ caption @
                          ''</em></div></ac:image>'')
          in if is_external
             then Inr (render (''<ri:url ri:value="'' @ src @ ''" />''), self)
             else
               let image_tag = ''<ri:attachment ri:filename="'' @ basename src @ ''" />'';
                   attachment = lstrip_chars ''/'' src;
                   attachment = (if startswith attachment ''images''
                                 then drop (length ''images'') attachment else attachment)
               in Inr (render image_tag,
                       self\<lparr>attachments := attachments self @ [attachment]\<rparr>))\<close>

text \<open>The three templates of \<open>link\<close>, after \<open>textwrap.dedent\<close> and \<open>format\<close>.\<close>

definition attachment_link_html :: "string \<Rightarrow> string \<Rightarrow> string" where
  \<open>attachment_link_html file text =
     ''<ac:link>'' @ [nl] @
     ''    <ri:attachment ri:filename="'' @ file @ ''" />'' @ [nl] @
     ''    <ac:plain-text-link-body>'' @ [nl] @
     ''        <![CDATA['' @ text @ '']]>'' @ [nl] @
     ''    </ac:plain-text-link-body>'' @ [nl] @
     ''</ac:link>'' @ [nl]\<close>

definition page_link_html :: "string \<Rightarrow> string \<Rightarrow> string" where
  \<open>page_link_html title text =
     ''<ac:link>'' @ [nl] @
     ''    <ri:page ri:content-title="'' @ title @ ''" />'' @ [nl] @
     ''    <ac:plain-text-link-body>'' @ [nl] @
     ''        <![CDATA['' @ text @ '']]>'' @ [nl] @
     ''    </ac:plain-text-link-body>'' @ [nl] @
     ''</ac:link>'' @ [nl]\<close>

definition heading_link_html :: "string \<Rightarrow> string \<Rightarrow> string" where
  \<open>heading_link_html heading text =
     ''<ac:link ac:anchor="'' @ heading @ ''">'' @ [nl] @
     ''    <ac:plain-text-link-body>'' @ [nl] @
     ''        <![CDATA['' @ text @ '']]>'' @ [nl] @
     ''    </ac:plain-text-link-body>'' @ [nl] @
     ''</ac:link>'' @ [nl]\<close>

text \<open>
  The \<open>link\<close> hook, with the method it calls as \<open>self.resolve_link\<close> as its first
  argument; \<open>link\<close> itself is the hook of the class, where that method is
  \<open>resolve_link\<close>.
\<close>

definition link_dispatch ::
  "(string \<Rightarrow> Link) \<Rightarrow> library \<Rightarrow> 'l renderer \<Rightarrow> string \<Rightarrow> string option \<Rightarrow> string
     \<Rightarrow> error + (string \<times> 'l renderer)" where
  "link_dispatch resolve lib self src title text =
     (case urlparse_netloc lib src of
        None \<Rightarrow> Inl LibraryError
      | Some netloc \<Rightarrow>
          if netloc \<noteq> [] then Inr (super_link lib src title text, self)
          else
            (case resolve src of
               ATTACHMENT \<Rightarrow>
                 Inr (attachment_link_html (basename src) text,
                      self\<lparr>attachments := attachments self @ [src]\<rparr>)
             | MD_PAGE_REFERENCE \<Rightarrow>
                 let title = (case get_page_title self of
                                Some f \<Rightarrow> Some (escape lib (f src))
                              | None \<Rightarrow> title)
                 in Inr (page_link_html (or_empty title) text, self)
             | HEADING \<Rightarrow> Inr (heading_link_html (or_empty title) text, self)
             | UNKNOWN \<Rightarrow> Inr (super_link lib src title text, self)))"

definition link ::
  "library \<Rightarrow> 'l renderer \<Rightarrow> string \<Rightarrow> string option \<Rightarrow> string \<Rightarrow> error + (string \<times> 'l renderer)" where
  "link = link_dispatch resolve_link"

text \<open>
  The classification as the specification words it, for comparison with \<open>resolve_link\<close>:
  rule 2 looks at the base name of the directory that contains the link.
\<close>

definition resolve_link_spec :: "string \<Rightarrow> Link" where
  "resolve_link_spec target =
     (if startswith target ''#'' then HEADING
      else if basename (dirname target) = ''images'' then ATTACHMENT
      else if snd (splitext target) = ''.md'' then MD_PAGE_REFERENCE
      else UNKNOWN)"

text \<open>
  The replacements of \<open>convert_info_macros\<close> as a list, in the order in which it applies
  them, and their application from left to right.
\<close>

definition macro_rules :: "(string \<times> string) list" where
  "macro_rules =
     [(''<p>~:</p>'', info_tag), (''<p>:~</p>'', close_tag),
      (''<p>~%</p>'', tip_tag), (''<p>%~</p>'', close_tag),
      (''<p>~?</p>'', note_tag), (''<p>?~</p>'', close_tag),
      (''<p>~!</p>'', warning_tag), (''<p>!~</p>'', close_tag),
      (''<p>~:'', info_tag), ('':~</p>'', close_tag),
      (''<p>~%'', tip_tag), (''%~</p>'', close_tag),
      (''<p>~?'', note_tag), (''?~</p>'', close_tag),
      (''<p>~!'', warning_tag), (''!~</p>'', close_tag),
      (''~:'', info_tag), ('':~'', close_tag),
      (''~%'', tip_tag), (''%~'', close_tag),
      (''~?'', note_tag), (''?~'', close_tag),
      (''~!'', warning_tag), (''!~'', close_tag)]"

definition apply_rules :: "string \<Rightarrow> (string \<times> string) list \<Rightarrow> string" where
  "apply_rules s rs = foldl (\<lambda>html (old, new). replace html old new) s rs"

text \<open>
  Two predicates for the proofs about \<open>convert_info_macros\<close>: a tag starts with \<open><\<close>, ends
  with \<open>>\<close> and has no tilde; a clean string contains none of the eight delimiters.
\<close>

definition angle_tag :: "string \<Rightarrow> bool" where
  "angle_tag t \<longleftrightarrow> t \<noteq> [] \<and> hd t = CHR ''<'' \<and> last t = CHR ''>'' \<and> CHR ''~'' \<notin> set t"

definition clean :: "string \<Rightarrow> bool" where
  "clean s \<longleftrightarrow> (\<forall>d\<in>set delimiters. \<not> sublist d s)"

text \<open>
  A stand-in for the three library calls, used to run the hooks on concrete inputs: only
  addresses under \<open>https://example.com\<close> have a network location, nothing is escaped,
  and the default link is a bare anchor element.
\<close>

definition example_library :: library where
  \<open>example_library =
     \<lparr> urlparse_netloc = (\<lambda>src. if prefix ''https://example.com'' src
                                then Some ''example.com'' else Some []),
       escape = (\<lambda>t. t),
       super_link = (\<lambda>src title text. ''<a href="'' @ src @ ''">'' @ text @ ''</a>'') \<rparr>\<close>

text \<open>The renderer as the constructor leaves it, with a layout of type \<open>unit\<close>.\<close>

definition fresh_renderer :: "unit renderer" where
  "fresh_renderer = \<lparr> has_toc = False, attachments = [], page_layout = (), get_page_title = None \<rparr>"

section \<open>Paths\<close>

lemma split_at_rfind1:
  "p = rev (dropWhile (\<lambda>x. x \<noteq> c) (rev p)) @ rev (takeWhile (\<lambda>x. x \<noteq> c) (rev p))"
proof -
  have "rev p = takeWhile (\<lambda>x. x \<noteq> c) (rev p) @ dropWhile (\<lambda>x. x \<noteq> c) (rev p)"
    by simp
  then have "rev (rev p) = rev (takeWhile (\<lambda>x. x \<noteq> c) (rev p) @ dropWhile (\<lambda>x. x \<noteq> c) (rev p))"
    by simp
  then show ?thesis by (simp del: takeWhile_dropWhile_id)
qed

lemma take_rfind1: "take (rfind1 c p) p = rev (dropWhile (\<lambda>x. x \<noteq> c) (rev p))"
proof -
  let ?h = "rev (dropWhile (\<lambda>x. x \<noteq> c) (rev p))"
  let ?t = "rev (takeWhile (\<lambda>x. x \<noteq> c) (rev p))"
  have "take (length ?h) (?h @ ?t) = ?h" by simp
  moreover have "length ?h = rfind1 c p" by (simp add: rfind1_def)
  ultimately show ?thesis using split_at_rfind1 [of p c] by simp
qed

lemma drop_rfind1: "drop (rfind1 c p) p = rev (takeWhile (\<lambda>x. x \<noteq> c) (rev p))"
proof -
  let ?h = "rev (dropWhile (\<lambda>x. x \<noteq> c) (rev p))"
  let ?t = "rev (takeWhile (\<lambda>x. x \<noteq> c) (rev p))"
  have "drop (length ?h) (?h @ ?t) = ?t" by simp
  moreover have "length ?h = rfind1 c p" by (simp add: rfind1_def)
  ultimately show ?thesis using split_at_rfind1 [of p c] by simp
qed

lemma rstrip_replicate:
  assumes "d \<noteq> []" "last d \<noteq> c"
  shows "rstrip_chars [c] (d @ replicate k c) = d"
proof -
  obtain b x where d: "d = b @ [x]" using assms(1) by (metis rev_exhaust)
  with assms(2) have "x \<noteq> c" by simp
  then show ?thesis
    by (simp add: rstrip_chars_def d dropWhile_append3)
qed

lemma head_of_sep_path:
  assumes "0 < k" "CHR ''/'' \<notin> set name"
  shows "take (rfind1 (CHR ''/'') (d @ replicate k (CHR ''/'') @ name)) (d @ replicate k (CHR ''/'') @ name)
           = d @ replicate k (CHR ''/'')"
proof -
  obtain j where k: "k = Suc j" using assms(1) by (cases k) auto
  have "dropWhile (\<lambda>x. x \<noteq> CHR ''/'') (rev name @ replicate k (CHR ''/'') @ rev d)
          = replicate k (CHR ''/'') @ rev d"
    using assms(2) by (auto simp: k dropWhile_append3)
  then show ?thesis
    unfolding take_rfind1 by simp
qed

lemma dirname_intro:
  assumes "d \<noteq> []" "last d \<noteq> CHR ''/''" "0 < k" "CHR ''/'' \<notin> set name"
  shows "dirname (d @ replicate k (CHR ''/'') @ name) = d"
proof -
  let ?h = "d @ replicate k (CHR ''/'')"
  have "hd d \<noteq> CHR ''/'' \<or> last d \<noteq> CHR ''/''" using assms(2) by simp
  have "?h \<noteq> replicate (length ?h) (CHR ''/'')"
  proof
    assume "?h = replicate (length ?h) (CHR ''/'')"
    then have "set ?h \<subseteq> {CHR ''/''}" by (metis set_replicate_conv_if empty_subsetI subset_refl)
    then have "last d = CHR ''/''" using assms(1) by (metis Un_iff last_in_set set_append singletonD subsetD)
    with assms(2) show False by simp
  qed
  moreover have "?h \<noteq> []" using assms(1) by simp
  moreover have "rstrip_chars ''/'' ?h = d"
    using assms(1,2) by (rule rstrip_replicate)
  ultimately show ?thesis
    unfolding dirname_def Let_def head_of_sep_path [OF assms(3,4)] by simp
qed

lemma rstrip_decomp:
  "rstrip_chars cs s @ rev (takeWhile (\<lambda>c. c \<in> set cs) (rev s)) = s"
proof -
  have "rev (takeWhile (\<lambda>c. c \<in> set cs) (rev s) @ dropWhile (\<lambda>c. c \<in> set cs) (rev s)) = rev (rev s)"
    by simp
  then show ?thesis
    unfolding rstrip_chars_def by (simp del: takeWhile_dropWhile_id)
qed

lemma takeWhile_eq_replicate:
  "takeWhile (\<lambda>c. c \<in> set [a]) xs = replicate (length (takeWhile (\<lambda>c. c \<in> set [a]) xs)) a"
  by (induction xs) auto

lemma dirname_elim:
  assumes "dirname p = d" "d \<noteq> []" "last d \<noteq> CHR ''/''"
  shows "\<exists>k name. 0 < k \<and> CHR ''/'' \<notin> set name \<and> p = d @ replicate k (CHR ''/'') @ name"
proof -
  define h where "h = rev (dropWhile (\<lambda>x. x \<noteq> CHR ''/'') (rev p))"
  define name where "name = rev (takeWhile (\<lambda>x. x \<noteq> CHR ''/'') (rev p))"
  define t where "t = takeWhile (\<lambda>c. c \<in> set ''/'') (rev h)"
  have p: "p = h @ name"
    unfolding h_def name_def by (rule split_at_rfind1)
  have name: "CHR ''/'' \<notin> set name"
    unfolding name_def using set_takeWhileD by fastforce
  have h_last: "last h = CHR ''/''" if "h \<noteq> []"
  proof -
    have ne: "dropWhile (\<lambda>x. x \<noteq> CHR ''/'') (rev p) \<noteq> []"
      using that by (simp add: h_def)
    then have "last h = hd (dropWhile (\<lambda>x. x \<noteq> CHR ''/'') (rev p))"
      unfolding h_def by (simp add: last_rev)
    then show ?thesis using hd_dropWhile [OF ne] by simp
  qed
  have d_cases: "d = (if h \<noteq> [] \<and> h \<noteq> replicate (length h) (CHR ''/'')
                      then rstrip_chars ''/'' h else h)"
    using assms(1) unfolding dirname_def Let_def take_rfind1 h_def by simp
  have h_ne: "h \<noteq> []"
    using d_cases assms(2) by (cases "h = []") simp_all
  have "d \<noteq> h"
    using h_last [OF h_ne] assms(3) by auto
  then have d: "d = rstrip_chars ''/'' h"
    using d_cases by (simp split: if_splits)
  have h: "h = d @ rev t"
    unfolding d t_def using rstrip_decomp [of "''/''" h] by simp
  have "t = replicate (length t) (CHR ''/'')"
    unfolding t_def by (rule takeWhile_eq_replicate)
  then have "rev t = rev (replicate (length t) (CHR ''/''))" by simp
  then have rt: "rev t = replicate (length t) (CHR ''/'')" by simp
  have "t \<noteq> []"
    using h \<open>d \<noteq> h\<close> by auto
  then have "0 < length t" by simp
  moreover have "p = d @ replicate (length t) (CHR ''/'') @ name"
    using p h rt by simp
  ultimately show ?thesis using name by blast
qed

lemma dirname_eq_iff:
  assumes "d \<noteq> []" "last d \<noteq> CHR ''/''"
  shows "dirname p = d \<longleftrightarrow>
           (\<exists>k name. 0 < k \<and> CHR ''/'' \<notin> set name \<and> p = d @ replicate k (CHR ''/'') @ name)"
  using assms dirname_elim [of p d] dirname_intro [of d] by blast

section \<open>Link classification\<close>

lemmas path_defs =
  startswith_def dirname_def basename_def splitext_def rfind1_def rstrip_chars_def

text \<open>
  C1, as the specification states it, fails: a link into an \<open>images\<close> directory below
  another directory has a containing directory whose base name is \<open>images\<close>, so the
  stated rule 2 makes it an ATTACHMENT, but \<open>resolve_link\<close> compares the whole directory
  part with \<open>images\<close> and returns UNKNOWN.
\<close>

theorem resolve_link_nested_assets_counterexample:
  "\<not> startswith ''docs/images/pic.png'' ''#''
   \<and> basename (dirname ''docs/images/pic.png'') = ''images''
   \<and> resolve_link_spec ''docs/images/pic.png'' = ATTACHMENT
   \<and> resolve_link ''docs/images/pic.png'' = UNKNOWN"
  by (simp add: resolve_link_def resolve_link_spec_def path_defs)

text \<open>
  C1, amended: \<open>resolve_link\<close> returns HEADING for a link that starts with \<open>#\<close>;
  otherwise ATTACHMENT when the directory part of the link is exactly \<open>images\<close>, that is
  when the link is \<open>images\<close>, one or more slashes, and a file name without a slash;
  otherwise MD_PAGE_REFERENCE (the CROSS_DOC_REFERENCE of the specification) when the
  extension of the link is \<open>.md\<close>; otherwise UNKNOWN. The four examples of the
  specification are classified as it says.
\<close>

theorem resolve_link_rules:
  "resolve_link target =
     (if startswith target ''#'' then HEADING
      else if (\<exists>k name. 0 < k \<and> CHR ''/'' \<notin> set name
                 \<and> target = ''images'' @ replicate k (CHR ''/'') @ name) then ATTACHMENT
      else if snd (splitext target) = ''.md'' then MD_PAGE_REFERENCE
      else UNKNOWN)
   \<and> resolve_link ''#section'' = HEADING
   \<and> resolve_link ''images/pic.png'' = ATTACHMENT
   \<and> resolve_link ''other/doc.md'' = MD_PAGE_REFERENCE
   \<and> resolve_link ''other/doc.txt'' = UNKNOWN"
proof -
  have "dirname target = ''images'' \<longleftrightarrow>
          (\<exists>k name. 0 < k \<and> CHR ''/'' \<notin> set name
             \<and> target = ''images'' @ replicate k (CHR ''/'') @ name)"
    by (rule dirname_eq_iff) simp_all
  then have "resolve_link target =
     (if startswith target ''#'' then HEADING
      else if (\<exists>k name. 0 < k \<and> CHR ''/'' \<notin> set name
                 \<and> target = ''images'' @ replicate k (CHR ''/'') @ name) then ATTACHMENT
      else if snd (splitext target) = ''.md'' then MD_PAGE_REFERENCE
      else UNKNOWN)"
    unfolding resolve_link_def by simp
  moreover have "resolve_link ''#section'' = HEADING"
    by (simp add: resolve_link_def path_defs)
  moreover have "resolve_link ''images/pic.png'' = ATTACHMENT"
    by (simp add: resolve_link_def path_defs)
  moreover have "resolve_link ''other/doc.md'' = MD_PAGE_REFERENCE"
    by (simp add: resolve_link_def path_defs)
  moreover have "resolve_link ''other/doc.txt'' = UNKNOWN"
    by (simp add: resolve_link_def path_defs)
  ultimately show ?thesis by blast
qed

section \<open>The hooks of the renderer\<close>

lemmas hook_defs =
  image_def link_def link_dispatch_def Let_def or_empty_def
  attachment_link_html_def page_link_html_def heading_link_html_def

lemma lstrip_sep_prefix:
  "a \<noteq> [] \<Longrightarrow> hd a \<noteq> c \<Longrightarrow> lstrip_chars [c] (replicate k c @ a) = a"
  by (cases a) (simp_all add: lstrip_chars_def dropWhile_append3)

text \<open>
  C2, as the specification states it, fails: for \<open>images/pic.png\<close> the \<open>image\<close> hook
  records \<open>/pic.png\<close>, which starts with a path separator. The hook trims the leading
  separators of \<open>src\<close> first and then removes the six characters \<open>images\<close>, so the
  separator after \<open>images\<close> stays.
\<close>
theorem image_assets_attachment_counterexample:
  \<open>image example_library fresh_renderer ''images/pic.png'' None ''pic'' =
     Inr (''<ac:image ac:align="center"><ri:attachment ri:filename="pic.png" /> <div style="text-align: center;"><em>pic</em></div></ac:image>'',
          fresh_renderer\<lparr>attachments := [''/pic.png'']\<rparr>)
   \<and> startswith ''/pic.png'' ''/''
   \<and> ''/pic.png'' \<noteq> ''pic.png''\<close>
  by (simp add: hook_defs example_library_def fresh_renderer_def path_defs
      lstrip_chars_def strip_chars_def)

lemma image_internal:
  assumes "urlparse_netloc lib src = Some []"
  shows "\<exists>html. image lib self src title alt_text =
           Inr (html, self\<lparr>attachments := attachments self @
                  [if startswith (lstrip_chars ''/'' src) ''images''
                   then drop (length ''images'') (lstrip_chars ''/'' src)
                   else lstrip_chars ''/'' src]\<rparr>)"
  using assms unfolding image_def Let_def by simp

text \<open>
  C2, amended: for every \<open>image\<close> call whose \<open>src\<close> has no network authority and is,
  after any leading separators, \<open>images\<close> followed by \<open>rest\<close>, exactly one path is
  appended to the attachments list, and it is \<open>rest\<close>: \<open>src\<close> without its leading
  separators and without the prefix \<open>images\<close>, the separator after \<open>images\<close> kept
  (for \<open>images/pic.png\<close> the path \<open>/pic.png\<close>).
\<close>

theorem image_assets_attachment:
  assumes "urlparse_netloc lib src = Some []"
    and "src = replicate k (CHR ''/'') @ ''images'' @ rest"
  shows "\<exists>html. image lib self src title alt_text =
           Inr (html, self\<lparr>attachments := attachments self @ [rest]\<rparr>)"
proof -
  have a: "lstrip_chars ''/'' src = ''images'' @ rest"
    unfolding assms(2) by (rule lstrip_sep_prefix) simp_all
  have b: "startswith (''images'' @ rest) ''images''"
    unfolding startswith_def by simp
  have c: "drop (length ''images'') (''images'' @ rest) = rest"
    by simp
  show ?thesis
    using image_internal [OF assms(1), of self title alt_text] unfolding a using b c by simp
qed

theorem image_assets_attachment_witness:
  "(\<exists>html. image example_library fresh_renderer ''/images/pic.png'' None ''pic'' =
            Inr (html, fresh_renderer\<lparr>attachments := [''/pic.png'']\<rparr>))
   \<and> (\<exists>html. image example_library fresh_renderer ''images/pic.png'' None ''pic'' =
            Inr (html, fresh_renderer\<lparr>attachments := [''/pic.png'']\<rparr>))"
proof -
  have h1: "urlparse_netloc example_library ''/images/pic.png'' = Some []"
    by (simp add: example_library_def)
  have h2: "''/images/pic.png'' = replicate 1 (CHR ''/'') @ ''images'' @ ''/pic.png''"
    by simp
  have g1: "urlparse_netloc example_library ''images/pic.png'' = Some []"
    by (simp add: example_library_def)
  have g2: "''images/pic.png'' = replicate 0 (CHR ''/'') @ ''images'' @ ''/pic.png''"
    by simp
  have h3: "attachments fresh_renderer @ [''/pic.png''] = [''/pic.png'']"
    by (simp add: fresh_renderer_def)
  show ?thesis
    using image_assets_attachment [OF h1 h2, of fresh_renderer None "''pic''"]
      image_assets_attachment [OF g1 g2, of fresh_renderer None "''pic''"]
    unfolding h3 by (rule conjI)
qed

text \<open>
  C6: when \<open>urlparse\<close> gives \<open>src\<close> a non-empty network authority, the \<open>image\<close> hook
  and the \<open>link\<close> hook return the renderer as it was, so the attachments list is the
  one before the call, and the \<open>link\<close> hook returns the default link whatever method
  stands for \<open>resolve_link\<close>: it does not call it.
\<close>
theorem external_url_frame:
  assumes "urlparse_netloc lib src = Some netloc" and "netloc \<noteq> []"
  shows "(\<exists>html. image lib self src title alt_text = Inr (html, self))
       \<and> (\<forall>resolve. link_dispatch resolve lib self src title text
                      = Inr (super_link lib src title text, self))
       \<and> link lib self src title text = Inr (super_link lib src title text, self)"
  using assms by (simp add: image_def link_def link_dispatch_def Let_def)

theorem external_url_frame_witness:
  \<open>(\<exists>html. image example_library fresh_renderer ''https://example.com/a.png'' None ''a''
             = Inr (html, fresh_renderer))
   \<and> (\<forall>resolve. link_dispatch resolve example_library fresh_renderer
                    ''https://example.com/a.png'' None ''a''
                  = Inr (''<a href="https://example.com/a.png">a</a>'', fresh_renderer))
   \<and> link example_library fresh_renderer ''https://example.com/a.png'' None ''a''
        = Inr (''<a href="https://example.com/a.png">a</a>'', fresh_renderer)\<close>
  using external_url_frame [of example_library "''https://example.com/a.png''" "''example.com''"
      fresh_renderer None "''a''" "''a''"]
  by (simp add: example_library_def)

text \<open>
  C7: for a link without network authority that \<open>resolve_link\<close> classifies
  MD_PAGE_REFERENCE (CROSS_DOC_REFERENCE), when a title callback is present the hook
  returns, without an error, the \<open>ac:link\<close> whose \<open>ri:content-title\<close> is the escaped result
  of the callback; when the callback returns the empty string (which \<open>mistune.escape\<close>
  leaves empty) the attribute is empty.
\<close>
theorem cross_doc_link_title_lookup:
  assumes "urlparse_netloc lib src = Some []"
    and "resolve_link src = MD_PAGE_REFERENCE"
    and "get_page_title self = Some f"
  shows \<open>link lib self src title text =
           Inr (''<ac:link>'' @ [nl] @
                ''    <ri:page ri:content-title="'' @ escape lib (f src) @ ''" />'' @ [nl] @
                ''    <ac:plain-text-link-body>'' @ [nl] @
                ''        <![CDATA['' @ text @ '']]>'' @ [nl] @
                ''    </ac:plain-text-link-body>'' @ [nl] @
                ''</ac:link>'' @ [nl], self)
         \<and> (f src = [] \<and> escape lib [] = [] \<longrightarrow>
              link lib self src title text =
                Inr (''<ac:link>'' @ [nl] @
                     ''    <ri:page ri:content-title="" />'' @ [nl] @
                     ''    <ac:plain-text-link-body>'' @ [nl] @
                     ''        <![CDATA['' @ text @ '']]>'' @ [nl] @
                     ''    </ac:plain-text-link-body>'' @ [nl] @
                     ''</ac:link>'' @ [nl], self))\<close>
  using assms by (simp add: hook_defs)

theorem cross_doc_link_title_lookup_witness:
  \<open>link example_library (fresh_renderer\<lparr>get_page_title := Some (\<lambda>path. [])\<rparr>)
      ''other/doc.md'' (Some ''tip'') ''other'' =
     Inr (''<ac:link>'' @ [nl] @
          ''    <ri:page ri:content-title="" />'' @ [nl] @
          ''    <ac:plain-text-link-body>'' @ [nl] @
          ''        <![CDATA[other]]>'' @ [nl] @
          ''    </ac:plain-text-link-body>'' @ [nl] @
          ''</ac:link>'' @ [nl], fresh_renderer\<lparr>get_page_title := Some (\<lambda>path. [])\<rparr>)\<close>
proof -
  have "urlparse_netloc example_library ''other/doc.md'' = Some []"
    by (simp add: example_library_def)
  moreover have "resolve_link ''other/doc.md'' = MD_PAGE_REFERENCE"
    by (simp add: resolve_link_def path_defs)
  moreover have "get_page_title (fresh_renderer\<lparr>get_page_title := Some (\<lambda>path. [])\<rparr>) = Some (\<lambda>path. [])"
    by simp
  moreover have "escape example_library [] = []"
    by (simp add: example_library_def)
  ultimately show ?thesis
    using cross_doc_link_title_lookup [of example_library "''other/doc.md''"
        "fresh_renderer\<lparr>get_page_title := Some (\<lambda>path. [])\<rparr>" "\<lambda>path. []" "Some ''tip''" "''other''"]
    by simp
qed

text \<open>
  C8: for a link without network authority that \<open>resolve_link\<close> classifies HEADING, the
  hook returns the \<open>ac:link\<close> whose \<open>ac:anchor\<close> is the title attribute of the link, or
  the empty string when there is none, with the link text as CDATA body; \<open>src\<close> does not
  occur in it.
\<close>
theorem heading_link_anchor:
  assumes "urlparse_netloc lib src = Some []"
    and "resolve_link src = HEADING"
  shows \<open>link lib self src title text =
           Inr (''<ac:link ac:anchor="'' @ (case title of None \<Rightarrow> [] | Some t \<Rightarrow> t) @ ''">'' @ [nl] @
                ''    <ac:plain-text-link-body>'' @ [nl] @
                ''        <![CDATA['' @ text @ '']]>'' @ [nl] @
                ''    </ac:plain-text-link-body>'' @ [nl] @
                ''</ac:link>'' @ [nl], self)\<close>
  using assms by (simp add: hook_defs)

theorem heading_link_anchor_witness:
  \<open>link example_library fresh_renderer ''#section'' (Some ''tip'') ''see'' =
     Inr (''<ac:link ac:anchor="tip">'' @ [nl] @
          ''    <ac:plain-text-link-body>'' @ [nl] @
          ''        <![CDATA[see]]>'' @ [nl] @
          ''    </ac:plain-text-link-body>'' @ [nl] @
          ''</ac:link>'' @ [nl], fresh_renderer)
   \<and> link example_library fresh_renderer ''#section'' None ''see'' =
     Inr (''<ac:link ac:anchor="">'' @ [nl] @
          ''    <ac:plain-text-link-body>'' @ [nl] @
          ''        <![CDATA[see]]>'' @ [nl] @
          ''    </ac:plain-text-link-body>'' @ [nl] @
          ''</ac:link>'' @ [nl], fresh_renderer)\<close>
proof -
  have "urlparse_netloc example_library ''#section'' = Some []"
    by (simp add: example_library_def)
  moreover have "resolve_link ''#section'' = HEADING"
    by (simp add: resolve_link_def path_defs)
  ultimately show ?thesis
    using heading_link_anchor [of example_library "''#section''" fresh_renderer "Some ''tip''" "''see''"]
      heading_link_anchor [of example_library "''#section''" fresh_renderer None "''see''"]
    by simp
qed

text \<open>
  C9: the constructor returns \<open>InvalidArgumentException\<close>, and no renderer, exactly when
  the page layout argument is falsy (\<open>None\<close> included) or is no page object; for a truthy
  page object it returns the fresh renderer.
\<close>
theorem init_layout_check:
  "(init a g = Inl InvalidArgumentException) = (\<not> truthy a \<or> as_page a = None)
   \<and> (\<forall>l. truthy a \<and> as_page a = Some l \<longrightarrow>
         init a g = Inr \<lparr> has_toc = False, attachments = [], page_layout = l,
                          get_page_title = (case g of Callable f \<Rightarrow> Some f | NotCallable \<Rightarrow> None) \<rparr>)"
  by (cases a) (auto simp: init_def)

theorem init_layout_check_witness:
  "init (NoneArg :: unit layout_arg) NotCallable = Inl InvalidArgumentException
   \<and> init (OtherObject True :: unit layout_arg) NotCallable = Inl InvalidArgumentException
   \<and> init (PageObject False ()) NotCallable = Inl InvalidArgumentException
   \<and> init (PageObject True ()) NotCallable = Inr fresh_renderer"
  using init_layout_check [of "NoneArg :: unit layout_arg" NotCallable]
    init_layout_check [of "OtherObject True :: unit layout_arg" NotCallable]
    init_layout_check [of "PageObject False ()" NotCallable]
    init_layout_check [of "PageObject True ()" NotCallable]
  by (simp add: fresh_renderer_def)

text \<open>
  C10: with a valid page layout and a title argument that is not callable the constructor
  raises nothing and returns a renderer without title lookup; on that renderer, whatever
  its attachments and table-of-contents flag have become, a link without network authority
  classified MD_PAGE_REFERENCE gets the title attribute of the link itself, unescaped, or
  the empty string when there is none, as its \<open>ri:content-title\<close>.
\<close>
theorem init_not_callable:
  \<open>\<exists>r. init (PageObject True l) NotCallable = Inr r \<and> get_page_title r = None
     \<and> (\<forall>lib src title text toc atts.
           urlparse_netloc lib src = Some [] \<and> resolve_link src = MD_PAGE_REFERENCE \<longrightarrow>
           link lib (r\<lparr>has_toc := toc, attachments := atts\<rparr>) src title text =
             Inr (''<ac:link>'' @ [nl] @
                  ''    <ri:page ri:content-title="'' @ (case title of None \<Rightarrow> [] | Some t \<Rightarrow> t) @ ''" />'' @ [nl] @
                  ''    <ac:plain-text-link-body>'' @ [nl] @
                  ''        <![CDATA['' @ text @ '']]>'' @ [nl] @
                  ''    </ac:plain-text-link-body>'' @ [nl] @
                  ''</ac:link>'' @ [nl], r\<lparr>has_toc := toc, attachments := atts\<rparr>))\<close>
  by (simp add: init_def hook_defs)

theorem init_not_callable_witness:
  \<open>init (PageObject True ()) NotCallable = Inr fresh_renderer
   \<and> link example_library fresh_renderer ''other/doc.md'' (Some ''a < b'') ''other'' =
       Inr (''<ac:link>'' @ [nl] @
            ''    <ri:page ri:content-title="a < b" />'' @ [nl] @
            ''    <ac:plain-text-link-body>'' @ [nl] @
            ''        <![CDATA[other]]>'' @ [nl] @
            ''    </ac:plain-text-link-body>'' @ [nl] @
            ''</ac:link>'' @ [nl], fresh_renderer)\<close>
proof -
  have h1: "urlparse_netloc example_library ''other/doc.md'' = Some []"
    by (simp add: example_library_def)
  have h2: "resolve_link ''other/doc.md'' = MD_PAGE_REFERENCE"
    by (simp add: resolve_link_def path_defs)
  have h3: "init (PageObject True ()) NotCallable = Inr fresh_renderer"
    by (simp add: init_def fresh_renderer_def)
  have h4: "fresh_renderer\<lparr>has_toc := False, attachments := []\<rparr> = fresh_renderer"
    by (simp add: fresh_renderer_def)
  obtain r where r: "init (PageObject True ()) NotCallable = Inr r"
    and hook: \<open>\<And>lib src title body toc atts.
           urlparse_netloc lib src = Some [] \<and> resolve_link src = MD_PAGE_REFERENCE \<Longrightarrow>
           link lib (r\<lparr>has_toc := toc, attachments := atts\<rparr>) src title body =
             Inr (''<ac:link>'' @ [nl] @
                  ''    <ri:page ri:content-title="'' @ (case title of None \<Rightarrow> [] | Some t \<Rightarrow> t) @ ''" />'' @ [nl] @
                  ''    <ac:plain-text-link-body>'' @ [nl] @
                  ''        <![CDATA['' @ body @ '']]>'' @ [nl] @
                  ''    </ac:plain-text-link-body>'' @ [nl] @
                  ''</ac:link>'' @ [nl], r\<lparr>has_toc := toc, attachments := atts\<rparr>)\<close>
    using init_not_callable [of "()"] by blast
  have "r = fresh_renderer" using r h3 by simp
  then show ?thesis
    using hook [where lib = example_library and src = "''other/doc.md''"
          and title = "Some ''a < b''" and body = "''other''" and toc = False and atts = "[]"]
      h1 h2 h3 h4 by simp
qed

section \<open>Splitting a post into metadata and body\<close>

lemmas strip_defs = strip_def strip_chars_def lstrip_chars_def rstrip_chars_def whitespace_def

lemma parse_loop_markdown:
  "parse_loop ls (r, m, False) = (r, m @ concat ls, False)"
  by (induction ls arbitrary: m) simp_all

lemma parse_loop_metadata:
  "\<forall>l\<in>set ls. strip l \<noteq> YAML_BOUNDARY \<Longrightarrow>
     parse_loop ls (r, m, True) = (r @ concat ls, m, True)"
  by (induction ls arbitrary: r) simp_all

lemma parse_loop_append:
  "parse_loop (xs @ ys) st = parse_loop ys (parse_loop xs st)"
proof (induction xs arbitrary: st)
  case Nil
  show ?case by simp
next
  case (Cons x xs)
  obtain r m b where st: "st = (r, m, b)" by (cases st) auto
  show ?case unfolding st using Cons.IH by simp
qed

lemma parse_loop_first:
  "parse_loop (first # rest) ([], [], True) = parse_loop rest (first, [], True)"
  by simp

lemma parse_loop_block:
  assumes "first \<noteq> []" "\<forall>l\<in>set meta. strip l \<noteq> YAML_BOUNDARY" "strip closing = YAML_BOUNDARY"
  shows "parse_loop (first # meta @ closing # body) ([], [], True)
           = (first @ concat meta, concat body, False)"
proof -
  have "parse_loop (first # meta @ closing # body) ([], [], True)
          = parse_loop (closing # body) (parse_loop meta (first, [], True))"
    by (simp only: parse_loop_first parse_loop_append)
  also have "\<dots> = parse_loop (closing # body) (first @ concat meta, [], True)"
    using assms(2) by (simp only: parse_loop_metadata)
  also have "\<dots> = parse_loop body (first @ concat meta, [], False)"
    using assms(1,3) by simp
  also have "\<dots> = (first @ concat meta, concat body, False)"
    by (simp only: parse_loop_markdown append_Nil)
  finally show ?thesis .
qed

lemma parse_loop_unclosed:
  assumes "\<forall>l\<in>set rest. strip l \<noteq> YAML_BOUNDARY"
  shows "parse_loop (first # rest) ([], [], True) = (first @ concat rest, [], True)"
  using assms by (simp only: parse_loop_first parse_loop_metadata)

lemma strip_Nil: "strip [] = []"
  by (simp add: strip_defs)

text \<open>
  C5, as the specification states it, fails: \<open>parse\<close> starts in metadata mode, so a
  post without a metadata block is collected as metadata as a whole and its Markdown body
  is empty, not its entire content. Here \<open>yaml.load\<close> is replaced by \<open>Inr\<close>, which hands
  the collected metadata text back.
\<close>

theorem parse_no_metadata_counterexample:
  "parse Inr [''# Title'' @ [nl], ''body'' @ [nl]] = Inr (''# Title'' @ [nl] @ ''body'' @ [nl], [])
   \<and> strip (concat [''# Title'' @ [nl], ''body'' @ [nl]]) = ''# Title'' @ [nl] @ ''body''"
  by (simp add: parse_def strip_defs YAML_BOUNDARY_def)

text \<open>
  C5, amended: \<open>parse\<close> starts in metadata mode. The first line of the post (the opening
  \<open>---\<close> line, when there is one) and the lines after it are collected as metadata up to
  the next line that contains only \<open>---\<close>; that line is dropped and ends the metadata, and
  everything after it, later \<open>---\<close> lines included, joined and stripped, is the Markdown
  body. A post in which no line after the first contains only \<open>---\<close> is metadata as a
  whole and its Markdown body is empty, and so is the body of the empty post.
\<close>

theorem parse_metadata_block:
  "(first \<noteq> [] \<and> (\<forall>l\<in>set meta. strip l \<noteq> YAML_BOUNDARY) \<and> strip closing = YAML_BOUNDARY \<longrightarrow>
      parse yaml_load (first # meta @ closing # body) =
        (case yaml_load (first @ concat meta) of
           Inl e \<Rightarrow> Inl e
         | Inr front_matter \<Rightarrow> Inr (front_matter, strip (concat body))))
   \<and> ((\<forall>l\<in>set rest. strip l \<noteq> YAML_BOUNDARY) \<longrightarrow>
      parse yaml_load (first # rest) =
        (case yaml_load (first @ concat rest) of
           Inl e \<Rightarrow> Inl e
         | Inr front_matter \<Rightarrow> Inr (front_matter, [])))
   \<and> parse yaml_load [] =
        (case yaml_load [] of Inl e \<Rightarrow> Inl e | Inr front_matter \<Rightarrow> Inr (front_matter, []))"
  by (simp add: parse_def parse_loop_block parse_loop_unclosed strip_Nil del: parse_loop.simps(2) split: sum.splits)

theorem parse_metadata_block_witness:
  "parse Inr [''---'' @ [nl], ''title: T'' @ [nl], ''---'' @ [nl], ''# H'' @ [nl], ''---'' @ [nl], ''text'' @ [nl]]
     = Inr (''---'' @ [nl] @ ''title: T'' @ [nl], ''# H'' @ [nl] @ ''---'' @ [nl] @ ''text'')
   \<and> parse Inr [''# H'' @ [nl], ''text'' @ [nl]] = Inr (''# H'' @ [nl] @ ''text'' @ [nl], [])"
proof -
  have b: "strip (''---'' @ [nl]) = YAML_BOUNDARY"
    by (simp add: strip_defs YAML_BOUNDARY_def)
  have m: "\<forall>l\<in>set [''title: T'' @ [nl]]. strip l \<noteq> YAML_BOUNDARY"
    by (simp add: strip_defs YAML_BOUNDARY_def)
  have n: "\<forall>l\<in>set [''text'' @ [nl]]. strip l \<noteq> YAML_BOUNDARY"
    by (simp add: strip_defs YAML_BOUNDARY_def)
  have s: "strip (concat [''# H'' @ [nl], ''---'' @ [nl], ''text'' @ [nl]]) = ''# H'' @ [nl] @ ''---'' @ [nl] @ ''text''"
    by (simp add: strip_defs)
  have f: "''---'' @ [nl] \<noteq> []" by simp
  show ?thesis
    using parse_metadata_block [of "''---'' @ [nl]" "[''title: T'' @ [nl]]" "''---'' @ [nl]" Inr
        "[''# H'' @ [nl], ''---'' @ [nl], ''text'' @ [nl]]" "[''text'' @ [nl]]"]
      parse_metadata_block [of "''# H'' @ [nl]" "[]" "[]" Inr "[]" "[''text'' @ [nl]]"]
      b m n s f
    by simp
qed

section \<open>String replacement\<close>

lemma replace_Nil: "old \<noteq> [] \<Longrightarrow> replace [] old new = []"
  by (simp add: replace.simps)

lemma replace_Cons:
  "old \<noteq> [] \<Longrightarrow> replace (x # xs) old new =
     (if prefix old (x # xs) then new @ replace (drop (length old) (x # xs)) old new
      else x # replace xs old new)"
  by (subst replace.simps) simp

lemma replace_absent:
  "old \<noteq> [] \<Longrightarrow> \<not> sublist old s \<Longrightarrow> replace s old new = s"
proof (induction s)
  case Nil
  then show ?case by (simp add: replace_Nil)
next
  case (Cons x xs)
  from Cons.prems(2) have "\<not> prefix old (x # xs)" and "\<not> sublist old xs"
    by (auto simp: sublist_Cons_right)
  with Cons.IH Cons.prems(1) show ?case by (simp add: replace_Cons)
qed

lemma sublist2_Cons:
  "sublist [a, b] (x # ys) \<longleftrightarrow> (x = a \<and> ys \<noteq> [] \<and> hd ys = b) \<or> sublist [a, b] ys"
  by (cases ys) (auto simp: sublist_Cons_right)

lemma sublist2_append:
  "sublist [a, b] (xs @ ys) \<longleftrightarrow>
     sublist [a, b] xs \<or> sublist [a, b] ys \<or> (xs \<noteq> [] \<and> ys \<noteq> [] \<and> last xs = a \<and> hd ys = b)"
proof (induction xs)
  case Nil
  show ?case by simp
next
  case (Cons x xs)
  show ?case
  proof (cases xs)
    case Nil
    then show ?thesis by (auto simp: sublist2_Cons)
  next
    case (Cons y zs)
    then show ?thesis using Cons.IH by (auto simp: sublist2_Cons)
  qed
qed

lemma replace_hd:
  assumes "old \<noteq> []" "new \<noteq> []" "s \<noteq> []"
  shows "replace s old new \<noteq> [] \<and>
         hd (replace s old new) = (if prefix old s then hd new else hd s)"
  using assms by (cases s) (simp_all add: replace_Cons)

lemma replace_keeps_absent:
  assumes "old \<noteq> []" "new \<noteq> []" "\<not> sublist [a, b] new" "hd new \<noteq> b" "last new \<noteq> a"
    and "\<not> sublist [a, b] s"
  shows "\<not> sublist [a, b] (replace s old new)"
  using assms(6)
proof (induction s rule: length_induct)
  case (1 s)
  show ?case
  proof (cases s)
    case Nil
    then show ?thesis using assms(1) by (simp add: replace_Nil)
  next
    case (Cons x xs)
    show ?thesis
    proof (cases "prefix old s")
      case True
      let ?rest = "drop (length old) s"
      have "length ?rest < length s" using assms(1) Cons by simp
      moreover have "\<not> sublist [a, b] ?rest"
        using "1.prems" sublist_drop sublist_order.order_trans by blast
      ultimately have "\<not> sublist [a, b] (replace ?rest old new)"
        using "1.IH" by blast
      moreover have "replace s old new = new @ replace ?rest old new"
        using True assms(1) Cons by (simp add: replace_Cons)
      ultimately show ?thesis
        using assms(2,3,5) by (simp add: sublist2_append)
    next
      case False
      have xs: "\<not> sublist [a, b] xs"
        using "1.prems" Cons by (simp add: sublist2_Cons)
      then have r: "\<not> sublist [a, b] (replace xs old new)"
        using "1.IH" Cons by simp
      have eq: "replace s old new = x # replace xs old new"
        using False assms(1) Cons by (simp add: replace_Cons)
      have "\<not> (x = a \<and> replace xs old new \<noteq> [] \<and> hd (replace xs old new) = b)"
      proof
        assume h: "x = a \<and> replace xs old new \<noteq> [] \<and> hd (replace xs old new) = b"
        then have "xs \<noteq> []" using assms(1) by (auto simp: replace_Nil)
        then have "hd (replace xs old new) = (if prefix old xs then hd new else hd xs)"
          using replace_hd [OF assms(1,2)] by simp
        with h assms(4) have "hd xs = b" by (auto split: if_splits)
        with h \<open>xs \<noteq> []\<close> "1.prems" Cons show False
          by (simp add: sublist2_Cons)
      qed
      with r eq show ?thesis by (simp add: sublist2_Cons)
    qed
  qed
qed

lemma replace_removes:
  assumes "new \<noteq> []" "\<not> sublist [a, b] new" "hd new \<noteq> b" "last new \<noteq> a"
  shows "\<not> sublist [a, b] (replace s [a, b] new)"
proof (induction s rule: length_induct)
  case (1 s)
  show ?case
  proof (cases s)
    case Nil
    then show ?thesis by (simp add: replace_Nil)
  next
    case (Cons x xs)
    show ?thesis
    proof (cases "prefix [a, b] s")
      case True
      let ?rest = "drop (length [a, b]) s"
      have "length ?rest < length s" using Cons by simp
      then have "\<not> sublist [a, b] (replace ?rest [a, b] new)"
        using "1.IH" by blast
      moreover have "replace s [a, b] new = new @ replace ?rest [a, b] new"
        using True Cons by (simp add: replace_Cons)
      ultimately show ?thesis
        using assms(1,2,4) by (simp add: sublist2_append)
    next
      case False
      have r: "\<not> sublist [a, b] (replace xs [a, b] new)"
        using "1.IH" Cons by simp
      have np: "\<not> prefix [a, b] (x # xs)"
        using False Cons by simp
      have eq: "replace s [a, b] new = x # replace xs [a, b] new"
        unfolding Cons by (subst replace_Cons, simp, simp only: np if_False)
      have "\<not> (x = a \<and> replace xs [a, b] new \<noteq> [] \<and> hd (replace xs [a, b] new) = b)"
      proof
        assume h: "x = a \<and> replace xs [a, b] new \<noteq> [] \<and> hd (replace xs [a, b] new) = b"
        then have ne: "xs \<noteq> []" by (auto simp: replace_Nil)
        then have "hd (replace xs [a, b] new) = (if prefix [a, b] xs then hd new else hd xs)"
          using replace_hd [of "[a, b]" new xs] assms(1) by simp
        with h assms(3) have "hd xs = b" by (auto split: if_splits)
        with h ne False Cons show False
          by (cases xs) auto
      qed
      with r eq show ?thesis by (simp add: sublist2_Cons)
    qed
  qed
qed

lemma replace_prefix:
  "old \<noteq> [] \<Longrightarrow> replace (old @ rest) old new = new @ replace rest old new"
  by (subst replace.simps) simp

lemma replace_first_occurrence:
  assumes "d \<noteq> []" "\<not> sublist d (xs @ p @ butlast d)"
  shows "replace (xs @ (p @ d @ q) @ rest) (p @ d @ q) new
           = xs @ new @ replace rest (p @ d @ q) new"
  using assms(2)
proof (induction xs)
  case Nil
  have "p @ d @ q \<noteq> []" using assms(1) by simp
  then have "replace ((p @ d @ q) @ rest) (p @ d @ q) new = new @ replace rest (p @ d @ q) new"
    by (rule replace_prefix)
  then show ?case by simp
next
  case (Cons x xs)
  let ?old = "p @ d @ q"
  let ?whole = "(x # xs) @ ?old @ rest"
  have ne: "?old \<noteq> []" using assms(1) by simp
  have "\<not> prefix ?old ?whole"
  proof
    assume "prefix ?old ?whole"
    then have "prefix (p @ d) ?whole"
      by (metis append.assoc append_prefixD)
    then have t: "take (length (p @ d)) ?whole = p @ d"
      by (metis append_eq_conv_conj prefix_def)
    define A where "A = (x # xs) @ p @ butlast d"
    define B where "B = [last d] @ q @ rest"
    have split: "?whole = A @ B"
      unfolding A_def B_def using assms(1) by simp
    have len: "length (p @ d) \<le> length A"
      unfolding A_def using assms(1) by (cases d) simp_all
    have "take (length (p @ d)) A = take (length (p @ d)) (A @ B)"
      using len by simp
    also have "\<dots> = take (length (p @ d)) ?whole"
      by (simp only: split)
    also have "\<dots> = p @ d"
      by (rule t)
    finally have "take (length (p @ d)) A = p @ d" .
    then have "prefix (p @ d) A"
      by (metis take_is_prefix)
    then obtain z where "A = (p @ d) @ z"
      by (auto elim: prefixE)
    then have "A = p @ d @ z" by simp
    then have "sublist d A" by simp
    then have "sublist d ((x # xs) @ p @ butlast d)" by (simp only: A_def)
    with Cons.prems show False by simp
  qed
  moreover have "\<not> sublist d (xs @ p @ butlast d)"
    using Cons.prems by (simp add: sublist_Cons_right)
  ultimately show ?case
    using Cons.IH ne by (simp add: replace_Cons del: append_assoc) 
qed

section \<open>Alert macros\<close>

lemma convert_info_macros_rules:
  "convert_info_macros html = apply_rules html macro_rules"
  by (simp add: convert_info_macros_def Let_def macro_rules_def apply_rules_def)

lemma apply_rules_Nil: "apply_rules s [] = s"
  by (simp add: apply_rules_def)

lemma apply_rules_Cons: "apply_rules s ((old, new) # rs) = apply_rules (replace s old new) rs"
  by (simp add: apply_rules_def)

lemma apply_rules_snoc: "apply_rules s (rs @ [(old, new)]) = replace (apply_rules s rs) old new"
  by (simp add: apply_rules_def)

lemma apply_rules_append: "apply_rules s (rs @ rs') = apply_rules (apply_rules s rs) rs'"
  by (simp add: apply_rules_def)

lemma tip_tag_eq:
  \<open>tip_tag = ''<p><ac:structured-macro ac:name="tip"><ac:rich-text-body><p>''\<close>
  by (simp add: tip_tag_def info_tag_def replace_Cons replace_Nil)

lemma note_tag_eq:
  \<open>note_tag = ''<p><ac:structured-macro ac:name="note"><ac:rich-text-body><p>''\<close>
  by (simp add: note_tag_def info_tag_def replace_Cons replace_Nil)

lemma warning_tag_eq:
  \<open>warning_tag = ''<p><ac:structured-macro ac:name="warning"><ac:rich-text-body><p>''\<close>
  by (simp add: warning_tag_def info_tag_def replace_Cons replace_Nil)

lemma angle_tags:
  "angle_tag info_tag" "angle_tag tip_tag" "angle_tag note_tag" "angle_tag warning_tag"
  "angle_tag close_tag"
  by (simp_all add: angle_tag_def tip_tag_eq note_tag_eq warning_tag_eq info_tag_def close_tag_def)

lemma delimiter_shape:
  assumes "d \<in> set delimiters"
  obtains a b where "d = [a, b]" "a = CHR ''~'' \<or> b = CHR ''~''"
    "a \<in> set ''~:%?!''" "b \<in> set ''~:%?!''"
  using assms unfolding delimiters_def by auto

lemma delimiter_vs_tag:
  assumes "d \<in> set delimiters" "angle_tag t"
  obtains a b where "d = [a, b]" "\<not> sublist [a, b] t" "hd t \<noteq> b" "last t \<noteq> a"
proof -
  obtain a b where d: "d = [a, b]" and tilde: "a = CHR ''~'' \<or> b = CHR ''~''"
    and a: "a \<in> set ''~:%?!''" and b: "b \<in> set ''~:%?!''"
    using assms(1) by (rule delimiter_shape)
  have "\<not> sublist [a, b] t"
  proof
    assume "sublist [a, b] t"
    then have "set [a, b] \<subseteq> set t" by (rule set_mono_sublist)
    with tilde assms(2) show False by (auto simp: angle_tag_def)
  qed
  moreover have "hd t \<noteq> b" using b assms(2) by (auto simp: angle_tag_def)
  moreover have "last t \<noteq> a" using a assms(2) by (auto simp: angle_tag_def)
  ultimately show thesis using d that by blast
qed

lemma step_keeps:
  assumes "d \<in> set delimiters" "angle_tag new" "old \<noteq> []" "\<not> sublist d s"
  shows "\<not> sublist d (replace s old new)"
proof -
  obtain a b where d: "d = [a, b]" and t: "\<not> sublist [a, b] new" "hd new \<noteq> b" "last new \<noteq> a"
    using assms(1,2) by (rule delimiter_vs_tag)
  have "new \<noteq> []" using assms(2) by (simp add: angle_tag_def)
  then show ?thesis
    using replace_keeps_absent [OF assms(3) _ t, of s] assms(4) unfolding d by blast
qed

lemma step_removes:
  assumes "d \<in> set delimiters" "angle_tag new"
  shows "\<not> sublist d (replace s d new)"
proof -
  obtain a b where d: "d = [a, b]" and t: "\<not> sublist [a, b] new" "hd new \<noteq> b" "last new \<noteq> a"
    using assms(1,2) by (rule delimiter_vs_tag)
  have "new \<noteq> []" using assms(2) by (simp add: angle_tag_def)
  then show ?thesis
    using replace_removes [OF _ t, of s] unfolding d by blast
qed

lemma bare_rules_clean:
  assumes "\<forall>(d, t)\<in>set rs. d \<in> set delimiters \<and> angle_tag t"
  shows "\<forall>d\<in>fst ` set rs. \<not> sublist d (apply_rules s rs)"
  using assms
proof (induction rs rule: rev_induct)
  case Nil
  show ?case by simp
next
  case (snoc r rs)
  obtain d' t' where r: "r = (d', t')" by (cases r)
  have d': "d' \<in> set delimiters" and t': "angle_tag t'"
    using snoc.prems r by auto
  have ne: "d' \<noteq> []" using d' by (auto simp: delimiters_def)
  have IH: "\<forall>d\<in>fst ` set rs. \<not> sublist d (apply_rules s rs)"
    using snoc.IH snoc.prems by auto
  show ?case
  proof
    fix d assume "d \<in> fst ` set (rs @ [r])"
    then consider "d = d'" | "d \<in> fst ` set rs" using r by auto
    then show "\<not> sublist d (apply_rules s (rs @ [r]))"
    proof cases
      case 1
      then show ?thesis unfolding r apply_rules_snoc using step_removes [OF d' t'] by simp
    next
      case 2
      then have "d \<in> set delimiters" using snoc.prems by auto
      moreover have "\<not> sublist d (apply_rules s rs)" using IH 2 by blast
      ultimately show ?thesis unfolding r apply_rules_snoc using step_keeps [OF _ t' ne] by blast
    qed
  qed
qed

lemma clean_fixed:
  assumes "clean s" "\<forall>(old, new)\<in>set rs. \<exists>d\<in>set delimiters. sublist d old"
  shows "apply_rules s rs = s"
  using assms(2)
proof (induction rs)
  case Nil
  show ?case by (simp add: apply_rules_Nil)
next
  case (Cons r rs)
  obtain old new where r: "r = (old, new)" by (cases r)
  obtain d where d: "d \<in> set delimiters" "sublist d old"
    using Cons.prems r by auto
  have "d \<noteq> []" using d(1) by (auto simp: delimiters_def)
  with d(2) have ne: "old \<noteq> []" by auto
  have "\<not> sublist old s"
  proof
    assume "sublist old s"
    with d(2) have "sublist d s" by (rule sublist_order.order_trans)
    with assms(1) d(1) show False by (simp add: clean_def)
  qed
  with ne have "replace s old new = s" by (rule replace_absent)
  then show ?case using Cons r by (simp add: apply_rules_Cons)
qed

lemma has_delimiter_clean: "has_delimiter s \<longleftrightarrow> \<not> clean s"
  by (simp add: has_delimiter_def clean_def list_ex_iff)

lemma macro_rules_patterns:
  "\<forall>(old, new)\<in>set macro_rules. \<exists>d\<in>set delimiters. sublist d old"
  by (simp add: macro_rules_def delimiters_def sublist_Cons_right)

lemma macro_rules_split:
  "macro_rules = take 16 macro_rules @ drop 16 macro_rules"
  by simp

lemma bare_rules:
  "\<forall>(d, t)\<in>set (drop 16 macro_rules). d \<in> set delimiters \<and> angle_tag t"
  "fst ` set (drop 16 macro_rules) = set delimiters"
  by (auto simp: macro_rules_def delimiters_def angle_tags)

lemma convert_info_macros_clean: "clean (convert_info_macros html)"
proof -
  have "convert_info_macros html
          = apply_rules (apply_rules html (take 16 macro_rules)) (drop 16 macro_rules)"
    unfolding convert_info_macros_rules
    by (subst macro_rules_split) (simp only: apply_rules_append)
  then show ?thesis
    using bare_rules_clean [OF bare_rules(1)] unfolding bare_rules(2) clean_def by simp
qed

text \<open>
  C4: for every HTML string the output of \<open>convert_info_macros\<close> contains none of the
  eight raw delimiters, and applying \<open>convert_info_macros\<close> to it again changes nothing.
\<close>

theorem convert_info_macros_idempotent:
  "\<not> has_delimiter (convert_info_macros html)
   \<and> convert_info_macros (convert_info_macros html) = convert_info_macros html"
proof
  show "\<not> has_delimiter (convert_info_macros html)"
    by (simp add: has_delimiter_clean convert_info_macros_clean)
  show "convert_info_macros (convert_info_macros html) = convert_info_macros html"
    using clean_fixed [OF convert_info_macros_clean macro_rules_patterns]
    by (simp only: convert_info_macros_rules)
qed

lemma clean_wrap:
  assumes "angle_tag t1" "angle_tag t2" "clean c"
  shows "clean (t1 @ c @ t2)"
  unfolding clean_def
proof
  fix d assume d: "d \<in> set delimiters"
  obtain a b where d1: "d = [a, b]" and t1: "\<not> sublist [a, b] t1" "last t1 \<noteq> a"
    using d assms(1) by (rule delimiter_vs_tag)
  obtain a' b' where d2: "d = [a', b']" and t2: "\<not> sublist [a', b'] t2" "hd t2 \<noteq> b'"
    using d assms(2) by (rule delimiter_vs_tag)
  have c: "\<not> sublist [a, b] c" using assms(3) d d1 by (simp add: clean_def)
  from d1 d2 have "a' = a" "b' = b" by simp_all
  with t1 t2 c show "\<not> sublist d (t1 @ c @ t2)"
    unfolding d1 by (simp add: sublist2_append)
qed

lemma block_form_rewrite:
  assumes "\<not> has_delimiter content"
  shows "convert_info_macros (''<p>~:</p>'' @ content @ ''<p>:~</p>'')
           = info_tag @ content @ close_tag"
proof -
  have c: "clean content" using assms by (simp add: has_delimiter_clean)
  have open_absent: "\<not> sublist ''~:'' (content @ ''<p>:~</p>'')"
    using c by (simp add: sublist2_append clean_def delimiters_def sublist_Cons_right)
  have "\<not> sublist ''<p>~:</p>'' (content @ ''<p>:~</p>'')"
  proof
    assume "sublist ''<p>~:</p>'' (content @ ''<p>:~</p>'')"
    moreover have "sublist ''~:'' ''<p>~:</p>''" by (simp add: sublist_Cons_right)
    ultimately have "sublist ''~:'' (content @ ''<p>:~</p>'')"
      using sublist_order.order_trans by blast
    with open_absent show False ..
  qed
  then have e: "replace (content @ ''<p>:~</p>'') ''<p>~:</p>'' info_tag = content @ ''<p>:~</p>''"
    by (simp add: replace_absent)
  have "replace (''<p>~:</p>'' @ content @ ''<p>:~</p>'') ''<p>~:</p>'' info_tag
          = info_tag @ replace (content @ ''<p>:~</p>'') ''<p>~:</p>'' info_tag"
    by (rule replace_prefix) simp
  also have "\<dots> = info_tag @ content @ ''<p>:~</p>''"
    by (simp only: e)
  finally have s1: "replace (''<p>~:</p>'' @ content @ ''<p>:~</p>'') ''<p>~:</p>'' info_tag
                      = info_tag @ content @ ''<p>:~</p>''" .
  have "\<not> sublist '':~'' ((info_tag @ content) @ ''<p>'' @ butlast '':~'')"
    using c by (simp add: sublist2_append clean_def delimiters_def sublist_Cons_right info_tag_def)
  then have "replace ((info_tag @ content) @ (''<p>'' @ '':~'' @ ''</p>'') @ []) (''<p>'' @ '':~'' @ ''</p>'') close_tag
               = (info_tag @ content) @ close_tag @ replace [] (''<p>'' @ '':~'' @ ''</p>'') close_tag"
    by (rule replace_first_occurrence [rotated]) simp
  then have s2: "replace (info_tag @ content @ ''<p>:~</p>'') ''<p>:~</p>'' close_tag
                   = info_tag @ content @ close_tag"
    by (simp add: replace_Nil)
  have rest: "\<forall>(old, new)\<in>set (drop 2 macro_rules). \<exists>d\<in>set delimiters. sublist d old"
    using macro_rules_patterns by (metis in_set_dropD)
  have m: "macro_rules = (''<p>~:</p>'', info_tag) # (''<p>:~</p>'', close_tag) # drop 2 macro_rules"
    by (simp add: macro_rules_def)
  have "convert_info_macros (''<p>~:</p>'' @ content @ ''<p>:~</p>'')
          = apply_rules (''<p>~:</p>'' @ content @ ''<p>:~</p>'')
              ((''<p>~:</p>'', info_tag) # (''<p>:~</p>'', close_tag) # drop 2 macro_rules)"
    unfolding convert_info_macros_rules by (subst m) (rule refl)
  also have "\<dots> = apply_rules (info_tag @ content @ close_tag) (drop 2 macro_rules)"
    by (simp only: apply_rules_Cons s1 s2)
  also have "\<dots> = info_tag @ content @ close_tag"
    using clean_wrap [OF angle_tags(1) angle_tags(5) c] rest by (rule clean_fixed)
  finally show ?thesis .
qed

text \<open>
  C3: for enclosed content that contains none of the eight delimiters,
  \<open>convert_info_macros\<close> turns the block-form paragraph \<open><p>~:</p>\<close>, the content and the
  block-form paragraph \<open><p>:~</p>\<close> into the opening info structured-macro tag, the
  content unchanged, and the closing macro tag: one opening tag, one closing tag, and
  nothing else changed.
\<close>

theorem convert_info_macros_block:
  assumes \<open>\<not> has_delimiter content\<close>
  shows \<open>convert_info_macros (''<p>~:</p>'' @ content @ ''<p>:~</p>'')
           = ''<p><ac:structured-macro ac:name="info"><ac:rich-text-body><p>'' @ content @
             ''</p></ac:rich-text-body></ac:structured-macro></p>''\<close>
  using block_form_rewrite [OF assms] unfolding info_tag_def close_tag_def .

theorem convert_info_macros_block_witness:
  \<open>convert_info_macros (''<p>~:</p>'' @ ''<p>Heads up: 50% done!</p>'' @ ''<p>:~</p>'')
     = ''<p><ac:structured-macro ac:name="info"><ac:rich-text-body><p>'' @
       ''<p>Heads up: 50% done!</p>'' @
       ''</p></ac:rich-text-body></ac:structured-macro></p>''\<close>
proof -
  have "\<not> has_delimiter ''<p>Heads up: 50% done!</p>''"
    by (simp add: has_delimiter_def delimiters_def sublist_Cons_right)
  then show ?thesis by (rule convert_info_macros_block)
qed

end
